theory Spec2Isabelle
  imports Main
begin

section \<open>Strings of the client code\<close>

text \<open>
  The TypeScript sources work on JavaScript strings. A string is modelled as a
  \<^typ>\<open>string\<close>, each \<^typ>\<open>char\<close> standing for one code unit below 256
  (the Latin-1 range). The white space of \<open>\s\<close> and of \<open>String.prototype.trim\<close>
  in that range is TAB, LF, VT, FF, CR, SPACE and NBSP.
\<close>

definition isWhiteSpace :: "char \<Rightarrow> bool" where
  "isWhiteSpace c =
     (c \<in> set [CHR 0x09, CHR 0x0A, CHR 0x0B, CHR 0x0C, CHR 0x0D, CHR 0x20, CHR 0xA0])"

definition trim :: "string \<Rightarrow> string" where
  "trim s = rev (dropWhile isWhiteSpace (rev (dropWhile isWhiteSpace s)))"

text \<open>\<open>s.startsWith(p)\<close>.\<close>

fun startsWith :: "string \<Rightarrow> string \<Rightarrow> bool" where
  "startsWith s [] = True"
| "startsWith [] (p # ps) = False"
| "startsWith (c # cs) (p # ps) = (c = p \<and> startsWith cs ps)"

text \<open>
  The text that follows the leftmost occurrence of \<open>tok\<close> in a string, if there is
  one; \<open>s.includes(tok)\<close> asks whether there is one.
\<close>

fun after_first :: "string \<Rightarrow> string \<Rightarrow> string option" where
  "after_first tok [] = (if tok = [] then Some [] else None)"
| "after_first tok (c # cs) =
     (if startsWith (c # cs) tok then Some (drop (length tok) (c # cs))
      else after_first tok cs)"

definition str_includes :: "string \<Rightarrow> string \<Rightarrow> bool" where
  "str_includes s tok = (after_first tok s \<noteq> None)"

section \<open>The final answer of a message (frontend/src/lib/utils.ts)\<close>

text \<open>
  \<open>extractFinalAnswerText\<close> tests for the literal \<open>**Final Answer:**\<close> and then
  matches the regular expression
  \<^verbatim>\<open>/\*\*Final Answer:\*\*\s*([\s\S]*?)(?=\n\n\*\*|$)/\<close>.
  The match starts at the leftmost occurrence of the literal. There \<open>\s*\<close> is greedy
  and takes all the white space that follows; the group is lazy and grows one code unit
  at a time until the look-ahead holds, that is until the rest of the input starts with
  a blank line followed by two asterisks, or is empty. The end of the input always
  satisfies the look-ahead, so the first alternative the matcher tries for \<open>\s*\<close>
  already succeeds and no occurrence of the literal fails to match.
\<close>

definition final_answer_token :: string where
  "final_answer_token = ''**Final Answer:**''"

definition header_mark :: string where
  "header_mark = [CHR 0x0A, CHR 0x0A, CHR ''*'', CHR ''*'']"

fun lazy_group :: "string \<Rightarrow> string" where
  "lazy_group [] = []"
| "lazy_group (c # cs) =
     (if startsWith (c # cs) header_mark then [] else c # lazy_group cs)"

definition regex_match :: "string \<Rightarrow> string option" where
  "regex_match s =
     map_option (\<lambda>rest. lazy_group (dropWhile isWhiteSpace rest))
       (after_first final_answer_token s)"

definition extractFinalAnswerText :: "string \<Rightarrow> string" where
  "extractFinalAnswerText messageContent =
     (if str_includes messageContent final_answer_token then
        (case regex_match messageContent of
           Some g \<Rightarrow> trim g
         | None \<Rightarrow> messageContent)
      else messageContent)"


section \<open>The memory view (LangGraphMemoryView)\<close>

text \<open>
  \<open>String.prototype.toLowerCase\<close> on code units below 256: the letters A to Z and the
  Latin-1 capitals (0xC0 to 0xDE without the multiplication sign 0xD7) move up by 32,
  every other code unit stays.
\<close>

definition toLowerChar :: "char \<Rightarrow> char" where
  "toLowerChar c =
     (let n = (of_char c :: nat)
      in if (65 \<le> n \<and> n \<le> 90) \<or> (192 \<le> n \<and> n \<le> 222 \<and> n \<noteq> 215)
         then char_of (n + 32) else c)"

definition toLowerCase :: "string \<Rightarrow> string" where
  "toLowerCase s = map toLowerChar s"

text \<open>
  \<open>s.split(sep)\<close> for a separator of one code unit: the pieces between the
  separators, one more than there are separators, so the empty string gives one empty
  piece.
\<close>

fun split_on :: "char \<Rightarrow> string \<Rightarrow> string list" where
  "split_on sep [] = [[]]"
| "split_on sep (c # cs) =
     (if c = sep then [] # split_on sep cs
      else (case split_on sep cs of
              w # ws \<Rightarrow> (c # w) # ws
            | [] \<Rightarrow> [[c]]))"

text \<open>The entry of the memory view; its field \<open>context\<close> is \<open>context_bag\<close> here.\<close>

record LangGraphMemoryEntry =
  thread_id :: string
  user_query :: string
  response :: string
  context_bag :: "(string \<times> string) list"
  timestamp :: string
  entry_id :: string

text \<open>
  \<open>isDuplicateContent\<close> closes over the component's \<open>memoryEntries\<close>, here its first
  argument. \<open>memoryEntries[index - 1]?.response.toLowerCase()\<close> is \<open>undefined\<close> when
  the list has no element at that index; \<open>!previousText\<close> then holds, as it does for the
  empty string. A \<open>Set\<close> of strings is a list without repetitions, of which only the
  size is read. The last line compares the quotient of two sizes with 0.8 in floating
  point. For sizes \<open>i\<close> and \<open>u\<close> below \<open>10^15\<close>, and a string has far fewer pieces,
  the rounded quotient is above the double nearest to 0.8 exactly when \<open>4 * u < 5 * i\<close>:
  at \<open>i / u = 4 / 5\<close> both sides are the same double, a smaller quotient does not round
  above it, and a larger one exceeds \<open>4 / 5\<close> by at least \<open>1 / (5 * u)\<close>, more than a
  rounding step. The comparison is written in that form.
\<close>

definition isDuplicateContent ::
  "LangGraphMemoryEntry list \<Rightarrow> LangGraphMemoryEntry \<Rightarrow> nat \<Rightarrow> bool" where
  "isDuplicateContent memoryEntries entry index =
     (if index = 0 then False
      else
        let currentText = toLowerCase (response entry);
            previousText =
              (if index - 1 < length memoryEntries
               then Some (toLowerCase (response (memoryEntries ! (index - 1))))
               else None)
        in case previousText of
             None \<Rightarrow> False
           | Some previous \<Rightarrow>
               if previous = [] then False
               else if currentText = previous then True
               else
                 let currentWords = remdups (split_on CHR '' '' currentText);
                     previousWords = remdups (split_on CHR '' '' previous);
                     intersection =
                       remdups (filter (\<lambda>x. x \<in> set previousWords) currentWords);
                     union = remdups (currentWords @ previousWords)
                 in 4 * length union < 5 * length intersection)"

text \<open>
  The Jaccard similarity of the space-split word sets of two lowercased responses
  strictly exceeds 0.8, on sets: the size of the intersection over the size of the union
  is above four fifths.
\<close>

definition word_set :: "string \<Rightarrow> string set" where
  "word_set text = set (split_on CHR '' '' (toLowerCase text))"

definition jaccard_exceeds_80 :: "string \<Rightarrow> string \<Rightarrow> bool" where
  "jaccard_exceeds_80 a b =
     (4 * card (word_set a \<union> word_set b) < 5 * card (word_set a \<inter> word_set b))"

text \<open>A memory entry with a given response, for concrete lists of entries.\<close>

definition sample_entry :: "string \<Rightarrow> LangGraphMemoryEntry" where
  "sample_entry r =
     \<lparr>thread_id = ''t'', user_query = ''q'', response = r, context_bag = [],
      timestamp = ''2025-01-25T10:30:00Z'', entry_id = ''e''\<rparr>"


section \<open>The stream-reading loop of handleSubmit (App)\<close>

text \<open>
  The loop reads chunks of bytes until the reader reports \<open>done\<close>, here the end of the
  list of chunks. Two functions of the platform are parameters: the \<open>TextDecoder\<close> in
  stream mode, a function from its state and a chunk to its next state and the decoded
  text, and \<open>JSON.parse\<close>, which gives the event or throws (\<open>None\<close>). The \<open>try\<close> of the
  loop body catches the throw and goes on with the next line. The result is the sequence
  of events passed to \<open>handleStreamEvent\<close>.
\<close>

definition dispatch_line :: "(string \<Rightarrow> 'j option) \<Rightarrow> string \<Rightarrow> 'j list" where
  "dispatch_line JSON_parse line =
     (if startsWith line ''data: '' then
        (case JSON_parse (drop 6 line) of
           Some eventData \<Rightarrow> [eventData]
         | None \<Rightarrow> [])
      else [])"

text \<open>\<open>lines.pop() || ''\<close>: the last piece, the empty string when there is none.\<close>

definition pop_or_empty :: "string list \<Rightarrow> string" where
  "pop_or_empty lines = (case lines of [] \<Rightarrow> [] | _ # _ \<Rightarrow> last lines)"

fun read_loop ::
  "('d \<Rightarrow> 'b list \<Rightarrow> 'd \<times> string) \<Rightarrow> (string \<Rightarrow> 'j option) \<Rightarrow>
     'd \<Rightarrow> string \<Rightarrow> 'b list list \<Rightarrow> 'j list" where
  "read_loop decode JSON_parse decoder buffer [] = []"
| "read_loop decode JSON_parse decoder buffer (chunk # rest) =
     (case decode decoder chunk of
        (decoder', text) \<Rightarrow>
          (let lines = split_on CHR 0x0A (buffer @ text);
               buffer' = pop_or_empty lines
           in concat (map (dispatch_line JSON_parse) (butlast lines)) @
              read_loop decode JSON_parse decoder' buffer' rest))"

text \<open>
  What C9 says of a text, whatever its chunks: its complete lines are the pieces that a
  line feed ends; a line that begins with \<open>data: \<close> and whose remainder parses is
  dispatched once, any other line is skipped.
\<close>

definition complete_lines :: "string \<Rightarrow> string list" where
  "complete_lines text = butlast (split_on CHR 0x0A text)"

definition dispatched_events :: "(string \<Rightarrow> 'j option) \<Rightarrow> string list \<Rightarrow> 'j list" where
  "dispatched_events JSON_parse lines =
     List.map_filter
       (\<lambda>line. if startsWith line ''data: '' then JSON_parse (drop 6 line) else None) lines"

text \<open>
  A decoder in stream mode decodes a sequence of bytes to the same text, and ends in the
  same state, whether it receives the bytes at once or in two parts; an empty chunk gives
  no text and leaves the state as it is.
\<close>

definition stream_decoder :: "('d \<Rightarrow> 'b list \<Rightarrow> 'd \<times> string) \<Rightarrow> bool" where
  "stream_decoder decode =
     ((\<forall>d. decode d [] = (d, [])) \<and>
      (\<forall>d a b. decode d (a @ b) =
         (case decode d a of (d1, s1) \<Rightarrow>
            (case decode d1 b of (d2, s2) \<Rightarrow> (d2, s1 @ s2)))))"

text \<open>
  A decoder of one byte a character, without state, and a parser that accepts the decimal
  numerals of one digit, for concrete streams.
\<close>

definition latin1_decode :: "unit \<Rightarrow> char list \<Rightarrow> unit \<times> string" where
  "latin1_decode d bytes = (d, bytes)"

definition parse_digit :: "string \<Rightarrow> nat option" where
  "parse_digit s =
     (case s of
        [c] \<Rightarrow> (if c \<in> set ''0123456789'' then Some (of_char c - 48) else None)
      | _ \<Rightarrow> None)"


section \<open>Submitting a query (InputForm and App)\<close>

text \<open>
  The input form keeps the text typed and the query type chosen. \<open>handleInternalSubmit\<close>
  returns without calling \<open>onSubmit\<close> when the trimmed text is empty; otherwise it calls
  \<open>onSubmit\<close> with the text and the query type and clears the text. The second
  component of the result is the call of \<open>onSubmit\<close>, if one is made.
\<close>

record InputFormState =
  internalInputValue :: string
  queryType :: string

definition handleInternalSubmit ::
  "InputFormState \<Rightarrow> InputFormState \<times> (string \<times> string) option" where
  "handleInternalSubmit form =
     (if trim (internalInputValue form) = [] then (form, None)
      else (form\<lparr>internalInputValue := []\<rparr>,
            Some (internalInputValue form, queryType form)))"

text \<open>
  The messages of \<open>App\<close>. The fields \<open>type\<close> and \<open>id\<close> of a message are \<open>msg_type\<close>
  and \<open>msg_id\<close> here. An identifier is a template string: \<open>FreshId\<close> holds one made
  from the clock and a random number, \<open>HistoryId t s i\<close> stands for the text of the kind
  \<open>t\<close>, the stamp \<open>s\<close> and the index \<open>i\<close> joined by underscores. The metadata keep the
  query type, the analyses by their keys and the follow-up flag; \<open>processing_time\<close>, a
  number that nothing reads, is left out. A text that may be missing is a string, the
  empty string standing for a missing one: the code only tests such a text for truth.
\<close>

datatype MessageType = human | ai

datatype MessageId = FreshId string | HistoryId MessageType string nat

record MessageMetadata =
  meta_query_type :: string
  meta_analyses :: "(string \<times> string) list"
  meta_is_followup :: "bool option"

record Message =
  msg_type :: MessageType
  content :: string
  msg_id :: MessageId
  metadata :: "MessageMetadata option"

record ProcessedEvent =
  title :: string
  data :: string

text \<open>The state of \<open>App\<close> that the handlers below read and write.\<close>

record AppState =
  messages :: "Message list"
  isLoading :: bool
  processedEventsTimeline :: "ProcessedEvent list"
  historicalActivities :: "(MessageId \<times> ProcessedEvent list) list"
  error :: "string option"
  currentStreamingMessage :: string
  streamingMetadata :: "(string \<times> string) list"
  currentThreadId :: "string option"
  hasLoadedContext :: bool

text \<open>
  What a handler does to the world outside the state: the request for the context of a
  thread, the timers that fill the activity timeline (delay in milliseconds and event),
  the request to the streaming endpoint with the fields \<open>query\<close>, \<open>query_type\<close> and
  \<open>thread_id\<close> of its body, and the replacement of the address of the page by one that
  names the thread.
\<close>

datatype Effect =
    GetContext string
  | SetTimeout nat ProcessedEvent
  | PostStream string string string
  | ReplaceUrl string

text \<open>
  What the outside gives to one call of \<open>handleSubmit\<close>: the thread id and the message
  id that would be generated (from the clock and a random number), and the messages that
  \<open>checkAndLoadThreadContext\<close> builds from the stored history of the thread, none when
  the thread has no history or the request fails.
\<close>

record SubmitEnv =
  newThreadId :: string
  newMessageId :: string
  historyMessages :: "Message list"

definition timelineEvents :: "ProcessedEvent list" where
  "timelineEvents =
     [\<lparr>title = ''Query Classification'',
       data = ''Analyzing query type and routing to appropriate specialists...''\<rparr>,
      \<lparr>title = ''Domain Expert Analysis'',
       data = ''Analyzing business logic and domain-specific requirements...''\<rparr>,
      \<lparr>title = ''UX/UI Specialist Analysis'',
       data = ''Analyzing user experience and interface design requirements...''\<rparr>,
      \<lparr>title = ''Technical Architect Analysis'',
       data = ''Analyzing technical architecture and implementation requirements...''\<rparr>,
      \<lparr>title = ''Revenue Model Analyst Analysis'',
       data = ''Analyzing revenue models and monetization strategies...''\<rparr>,
      \<lparr>title = ''Moderator Aggregation'',
       data = ''Consolidating feedback and resolving conflicts...''\<rparr>,
      \<lparr>title = ''Final Answer Generation'',
       data = ''Generating comprehensive final answer...''\<rparr>]"

text \<open>
  \<open>getOrCreateThreadId\<close>: a thread id that is \<open>null\<close> or empty is falsy and is
  replaced by a new one.
\<close>

definition getOrCreateThreadId :: "SubmitEnv \<Rightarrow> AppState \<Rightarrow> string \<times> AppState" where
  "getOrCreateThreadId env st =
     (if currentThreadId st = None \<or> currentThreadId st = Some []
      then (newThreadId env, st\<lparr>currentThreadId := Some (newThreadId env)\<rparr>)
      else (the (currentThreadId st), st))"

text \<open>
  \<open>checkAndLoadThreadContext\<close> replaces the messages by those of the stored history
  when there are any.
\<close>

definition checkAndLoadThreadContext :: "SubmitEnv \<Rightarrow> AppState \<Rightarrow> AppState" where
  "checkAndLoadThreadContext env st =
     (if historyMessages env \<noteq> []
      then st\<lparr>messages := historyMessages env, hasLoadedContext := True\<rparr>
      else st)"

text \<open>
  \<open>handleSubmit\<close> up to the request to the streaming endpoint: the state it leaves and
  the effects it has started, in order. The first statement returns when the trimmed
  input is empty.
\<close>

definition handleSubmit ::
  "SubmitEnv \<Rightarrow> string \<Rightarrow> string \<Rightarrow> AppState \<Rightarrow> AppState \<times> Effect list" where
  "handleSubmit env submittedInputValue effort st =
     (if trim submittedInputValue = [] then (st, [])
      else
        (case getOrCreateThreadId env st of
           (threadId, st1) \<Rightarrow>
             let load = (messages st = [] \<and> \<not> hasLoadedContext st);
                 st2 = (if load then checkAndLoadThreadContext env st1 else st1);
                 st3 = st2\<lparr>processedEventsTimeline := [], isLoading := True, error := None,
                          currentStreamingMessage := [], streamingMetadata := []\<rparr>;
                 userMessage = \<lparr>msg_type = human, content = submittedInputValue,
                                 msg_id = FreshId (newMessageId env), metadata = None\<rparr>;
                 st4 = st3\<lparr>messages := messages st3 @ [userMessage]\<rparr>
             in (st4,
                 (if load then [GetContext threadId] else []) @
                 map (\<lambda>(i, e). SetTimeout (i * 1000) e)
                   (zip [0 ..< length timelineEvents] timelineEvents) @
                 [PostStream submittedInputValue effort threadId])))"

text \<open>The form and the application together: \<open>onSubmit\<close> is \<open>handleSubmit\<close>.\<close>

definition submit_form ::
  "SubmitEnv \<Rightarrow> InputFormState \<Rightarrow> AppState \<Rightarrow> InputFormState \<times> AppState \<times> Effect list" where
  "submit_form env form st =
     (case handleInternalSubmit form of
        (form', None) \<Rightarrow> (form', st, [])
      | (form', Some (inputValue, effort)) \<Rightarrow>
          (case handleSubmit env inputValue effort st of
             (st', effects) \<Rightarrow> (form', st', effects)))"

section \<open>The history on the page and the end of a stream (App)\<close>













text \<open>
  The state of a page just opened, an environment in which the thread has no stored
  history, and a default history of one finished conversation, for concrete calls.
\<close>

definition initial_state :: AppState where
  "initial_state =
     \<lparr>messages = [], isLoading = False, processedEventsTimeline = [],
      historicalActivities = [], error = None, currentStreamingMessage = [],
      streamingMetadata = [], currentThreadId = None, hasLoadedContext = False\<rparr>"

definition sample_env :: SubmitEnv where
  "sample_env =
     \<lparr>newThreadId = ''frontend_thread_1'', newMessageId = ''human_1'',
      historyMessages = []\<rparr>"






section \<open>Follow-up detection in the graph (FOLLOWUP_FUNCTIONALITY.md)\<close>

text \<open>
  The two functions of \<open>backend/src/agent/graph.py\<close> as the document gives them. The
  state is a dictionary; its keys read here are fields of a record, \<open>user_query\<close> under
  the name \<open>state_user_query\<close>. An analysis that is missing is \<open>None\<close>. Python's
  \<open>or\<close> returns its left operand when that is truthy (for a string: not empty) and its
  right operand otherwise.
\<close>

record OverallState =
  state_user_query :: string
  agent_history :: "string list"
  domain_analysis :: "string option"
  ux_analysis :: "string option"
  technical_analysis :: "string option"
  revenue_analysis :: "string option"
  moderator_analysis :: "string option"

definition truthy :: "string option \<Rightarrow> bool" where
  "truthy v = (case v of None \<Rightarrow> False | Some s \<Rightarrow> s \<noteq> [])"

definition py_or :: "string option \<Rightarrow> string option \<Rightarrow> string option" where
  "py_or a b = (if truthy a then a else b)"

text \<open>\<open>is_followup = len(agent_history) > 0\<close>, the first statement of both functions.\<close>

definition is_followup_query :: "OverallState \<Rightarrow> bool" where
  "is_followup_query state = (0 < length (agent_history state))"

text \<open>
  \<open>detect_followup_and_route\<close>. The document shows the first test of the follow-up
  branch and elides the rest of the function (\<open># ... more routing logic\<close>); the elided
  rest is the parameter \<open>more_routing\<close>.
\<close>

definition detect_followup_and_route ::
  "(OverallState \<Rightarrow> string) \<Rightarrow> OverallState \<Rightarrow> string" where
  "detect_followup_and_route more_routing state =
     (let user_query = toLowerCase (state_user_query state)
      in if is_followup_query state \<and>
            list_ex (\<lambda>keyword. str_includes user_query keyword)
              [''revenue'', ''money'', ''income'', ''pricing'', ''monetization'']
         then ''revenue_model_analyst''
         else more_routing state)"

text \<open>
  \<open>finalize_answer\<close>. The document shows the branch of a follow-up; what the function
  returns otherwise is the parameter \<open>full_answer\<close>.
\<close>

record FinalizeResult =
  result_messages :: "string option list"
  final_answer :: "string option"
  is_complete :: bool
  is_followup :: bool

definition finalize_answer ::
  "(OverallState \<Rightarrow> FinalizeResult) \<Rightarrow> OverallState \<Rightarrow> FinalizeResult" where
  "finalize_answer full_answer state =
     (if is_followup_query state then
        (let final_content =
               py_or (domain_analysis state)
                 (py_or (ux_analysis state)
                   (py_or (technical_analysis state)
                     (py_or (revenue_analysis state) (moderator_analysis state))))
         in \<lparr>result_messages = [final_content], final_answer = final_content,
             is_complete = True, is_followup = True\<rparr>)
      else full_answer state)"



section \<open>The classifier of the specification\<close>

text \<open>
  Modelled from the spec: the classifier (section 4.1), whose code is not among the
  sources; the document on follow-ups shows only the first test of its routing.
  Its inputs are the query, the history of the thread and an optional focus hint; its
  output is the query kind, the follow-up flag and an optional shortcut target, or the
  failure \<open>InvalidInput\<close> for a query that is empty or only white space. First the
  four specialist roles (section 2).
\<close>

datatype Role = Domain | UxUi | Technical | Revenue

text \<open>
  Modelled from the spec: the query kinds of section 3, the four roles together with
  \<open>general\<close> and \<open>debate\<close>.
\<close>

datatype QueryKind = KindGeneral | KindRole Role | KindDebate

text \<open>Modelled from the spec: the focus hint of a query (section 3).\<close>

datatype FocusHint = HintGeneral | HintRole Role

text \<open>
  Modelled from the spec: the target of a shortcut (section 4.1, step 6), a specialist
  or the moderator.
\<close>

datatype ShortcutTarget = ToRole Role | ToModerator

text \<open>Modelled from the spec: the error kinds of section 7.\<close>

datatype ErrorKind =
  InvalidInput | UpstreamUnavailable | Timeout | StorageError | Cancelled | Internal

text \<open>Modelled from the spec: the output of the classifier (section 4.1).\<close>

record Verdict =
  query_kind :: QueryKind
  verdict_is_followup :: bool
  shortcut_target :: "ShortcutTarget option"

text \<open>
  Modelled from the spec: the keyword sets of step 2, in the order of the tie-break of
  step 4 (revenue, then ux_ui, then technical, then domain).
\<close>

definition keyword_sets :: "(Role \<times> string list) list" where
  "keyword_sets =
     [(Revenue, [''revenue'', ''money'', ''income'', ''pricing'', ''monetization'',
                 ''profit'', ''earnings'']),
      (UxUi, [''ui'', ''ux'', ''design'', ''user experience'', ''interface'',
              ''usability'', ''accessibility'']),
      (Technical, [''technical'', ''architecture'', ''code'', ''database'', ''api'',
                   ''infrastructure'', ''scalability'']),
      (Domain, [''business'', ''domain'', ''market'', ''industry'', ''compliance'',
                ''regulation''])]"

text \<open>
  Modelled from the spec: the scan of the lowercased query (steps 2 and 4): the first
  role, in the order of the tie-break, one of whose keywords the query contains.
\<close>

fun scan_keywords :: "(Role \<times> string list) list \<Rightarrow> string \<Rightarrow> Role option" where
  "scan_keywords [] lowered = None"
| "scan_keywords ((role, keywords) # rest) lowered =
     (if list_ex (\<lambda>keyword. str_includes lowered keyword) keywords then Some role
      else scan_keywords rest lowered)"

text \<open>
  Modelled from the spec: the algorithm of section 4.1, steps 1 to 7, and its edge
  cases.
\<close>

definition classify ::
  "string \<Rightarrow> 'h list \<Rightarrow> FocusHint option \<Rightarrow> ErrorKind + Verdict" where
  "classify query_text thread_history focus_hint =
     (if trim query_text = [] then Inl InvalidInput
      else
        let followup = (0 < length thread_history);
            target =
              (case focus_hint of
                 Some (HintRole role) \<Rightarrow> Some role
               | _ \<Rightarrow> scan_keywords keyword_sets (toLowerCase query_text));
            kind = (case target of Some role \<Rightarrow> KindRole role | None \<Rightarrow> KindGeneral);
            shortcut =
              (if followup then
                 (case target of
                    Some role \<Rightarrow> Some (ToRole role)
                  | None \<Rightarrow> Some ToModerator)
               else None)
        in Inr \<lparr>query_kind = kind, verdict_is_followup = followup,
                shortcut_target = shortcut\<rparr>)"


section \<open>The memory store of the specification\<close>

text \<open>
  Modelled from the spec: the entries of the store (section 3), whose code is not among
  the sources: the client only reads the store and clears a thread through the server.
  An entry carries its identifier, its thread, its timestamp (a reading of the monotonic
  clock), the query, the final answer and the tag set by the duplicate detection. The
  fields have the prefix \<open>ce\<close>.
\<close>

record ConversationEntry =
  ce_entry_id :: string
  ce_thread_id :: string
  ce_timestamp :: nat
  ce_user_query :: string
  ce_final_answer :: string
  ce_duplicate :: bool

text \<open>
  Modelled from the spec: the normalized-response fingerprint of section 4.7, the
  lowercased final answer with each run of white space collapsed to one blank. The flag
  says whether the code unit before was white space.
\<close>

fun collapse_whitespace :: "bool \<Rightarrow> string \<Rightarrow> string" where
  "collapse_whitespace in_run [] = []"
| "collapse_whitespace in_run (c # cs) =
     (if isWhiteSpace c then
        (if in_run then collapse_whitespace True cs
         else CHR '' '' # collapse_whitespace True cs)
      else c # collapse_whitespace False cs)"

text \<open>Modelled from the spec: the fingerprint of a final answer (section 4.7).\<close>

definition fingerprint :: "string \<Rightarrow> string" where
  "fingerprint answer = collapse_whitespace False (toLowerCase answer)"

text \<open>
  Modelled from the spec: the store is an append-only log (section 2), here the list of
  its entries in the order of their commits, the oldest first. The entries of a thread.
\<close>

definition thread_entries :: "string \<Rightarrow> ConversationEntry list \<Rightarrow> ConversationEntry list" where
  "thread_entries thread store = filter (\<lambda>e. ce_thread_id e = thread) store"

text \<open>Modelled from the spec: the last \<open>n\<close> entries of a list (section 4.7).\<close>

definition recent_window :: "nat \<Rightarrow> 'a list \<Rightarrow> 'a list" where
  "recent_window n entries = drop (length entries - n) entries"

text \<open>Modelled from the spec: the option \<open>duplicate_window\<close>, default 5 (section 6.4).\<close>

definition duplicate_window :: nat where
  "duplicate_window = 5"

text \<open>
  Modelled from the spec: the write-side guard of section 4.7. An entry with the same
  fingerprint exists in the same thread within the last N = 5 entries.
\<close>

definition has_recent_duplicate :: "ConversationEntry list \<Rightarrow> ConversationEntry \<Rightarrow> bool" where
  "has_recent_duplicate store entry =
     list_ex (\<lambda>x. fingerprint (ce_final_answer x) = fingerprint (ce_final_answer entry))
       (recent_window duplicate_window (thread_entries (ce_thread_id entry) store))"

text \<open>
  Modelled from the spec: \<open>append\<close> of section 4.7, for a store that accepts the write.
  It is idempotent on the identifier: an entry whose identifier the store already holds
  is silently ignored. A new entry is tagged by the guard and stored in either case.
\<close>

definition append_entry :: "ConversationEntry \<Rightarrow> ConversationEntry list \<Rightarrow> ConversationEntry list" where
  "append_entry entry store =
     (if ce_entry_id entry \<in> set (map ce_entry_id store) then store
      else store @ [entry\<lparr>ce_duplicate := has_recent_duplicate store entry\<rparr>])"

text \<open>
  Modelled from the spec: equality of entries modulo what the implementation adds, the
  duplicate tag (section 8).
\<close>

definition same_entry :: "ConversationEntry \<Rightarrow> ConversationEntry \<Rightarrow> bool" where
  "same_entry a b = (a\<lparr>ce_duplicate := False\<rparr> = b\<lparr>ce_duplicate := False\<rparr>)"

text \<open>
  Modelled from the spec: an entry of the data model with a given identifier, thread,
  timestamp and answer, for concrete stores.
\<close>

definition sample_conversation ::
  "string \<Rightarrow> string \<Rightarrow> nat \<Rightarrow> string \<Rightarrow> ConversationEntry" where
  "sample_conversation ident thread time answer =
     \<lparr>ce_entry_id = ident, ce_thread_id = thread, ce_timestamp = time,
      ce_user_query = ''What pricing strategy should I use?'', ce_final_answer = answer,
      ce_duplicate = False\<rparr>"


section \<open>A request at the entry of the orchestrator, in the specification\<close>

text \<open>
  Modelled from the spec: how an error kind is surfaced (sections 6.1 and 7): status 400
  for \<open>InvalidInput\<close>, 502 when all analyzers fail, 504 on a timeout and 500 otherwise;
  a cancelled request has no response beyond its terminating event. The server code that
  answers a request is not among the sources.
\<close>

fun http_status :: "ErrorKind \<Rightarrow> nat option" where
  "http_status InvalidInput = Some 400"
| "http_status UpstreamUnavailable = Some 502"
| "http_status Timeout = Some 504"
| "http_status StorageError = Some 500"
| "http_status Internal = Some 500"
| "http_status Cancelled = None"

text \<open>
  Modelled from the spec: what a request leaves behind: the status of the response, the
  error kind if it failed, the store, and the analyzers that were invoked for it.
\<close>

record RequestOutcome =
  response_status :: "nat option"
  failure :: "ErrorKind option"
  store_after :: "ConversationEntry list"
  analyzers_invoked :: "Role list"

text \<open>
  Modelled from the spec: the entry of a request (sections 4.1, 4.6 and 7). The
  orchestrator reads the history of the thread from the store and classifies the query;
  a failure of the classifier ends the request with its error kind, nothing is persisted
  and no analyzer is invoked. Otherwise the plan of the supervisor runs: the remainder
  of the pipeline is the parameter \<open>pipeline\<close>.
\<close>

definition run_request ::
  "(Verdict \<Rightarrow> ConversationEntry list \<Rightarrow> RequestOutcome) \<Rightarrow> string \<Rightarrow> string \<Rightarrow>
     FocusHint option \<Rightarrow> ConversationEntry list \<Rightarrow> RequestOutcome" where
  "run_request pipeline query_text thread focus_hint store =
     (case classify query_text (thread_entries thread store) focus_hint of
        Inl kind \<Rightarrow>
          \<lparr>response_status = http_status kind, failure = Some kind, store_after = store,
           analyzers_invoked = []\<rparr>
      | Inr verdict \<Rightarrow> pipeline verdict store)"

text \<open>
  Modelled from the spec: a pipeline that invokes the four specialists and answers with
  status 200, for concrete requests.
\<close>

definition sample_pipeline :: "Verdict \<Rightarrow> ConversationEntry list \<Rightarrow> RequestOutcome" where
  "sample_pipeline verdict store =
     \<lparr>response_status = Some 200, failure = None, store_after = store,
      analyzers_invoked = [Domain, UxUi, Technical, Revenue]\<rparr>"


section \<open>Facts about the string functions\<close>

lemma startsWith_iff: "startsWith s p \<longleftrightarrow> (\<exists>r. s = p @ r)"
  by (induction s p rule: startsWith.induct) auto

lemma startsWith_length: "startsWith s p \<Longrightarrow> length p \<le> length s"
  by (auto simp: startsWith_iff)

lemma after_first_short:
  "length u < length tok \<Longrightarrow> after_first tok u = None"
proof (induction u)
  case Nil
  then show ?case by auto
next
  case (Cons a u)
  from Cons.prems have "\<not> startsWith (a # u) tok"
    using startsWith_length by fastforce
  with Cons show ?case by simp
qed

lemma after_first_Some:
  assumes "tok \<noteq> []" "after_first tok s = Some r"
  shows "\<exists>pre. s = pre @ tok @ r \<and> after_first tok (pre @ butlast tok) = None"
  using assms(2)
proof (induction s)
  case Nil
  with assms(1) show ?case by simp
next
  case (Cons c cs)
  show ?case
  proof (cases "startsWith (c # cs) tok")
    case True
    then obtain r' where r': "c # cs = tok @ r'" by (auto simp: startsWith_iff)
    from True Cons.prems have "r = drop (length tok) (c # cs)" by simp
    with r' have "r = r'" by simp
    moreover have "after_first tok (butlast tok) = None"
      using assms(1) by (intro after_first_short) simp
    ultimately show ?thesis using r' by (intro exI [of _ "[]"]) simp
  next
    case False
    with Cons.prems have "after_first tok cs = Some r" by simp
    from Cons.IH [OF this] obtain pre where
      pre: "cs = pre @ tok @ r" "after_first tok (pre @ butlast tok) = None" by blast
    have "\<not> startsWith (c # pre @ butlast tok) tok"
    proof
      assume "startsWith (c # pre @ butlast tok) tok"
      then obtain q where "c # pre @ butlast tok = tok @ q" by (auto simp: startsWith_iff)
      then have "c # cs = tok @ q @ [last tok] @ r"
        using pre(1) assms(1)
        by (metis append.assoc append_Cons append_butlast_last_id append_Nil)
      with False show False by (auto simp: startsWith_iff)
    qed
    with pre show ?thesis by (intro exI [of _ "c # pre"]) simp
  qed
qed

lemma after_first_None:
  "after_first tok s = None \<Longrightarrow> s \<noteq> pre @ tok @ post"
proof (induction s arbitrary: pre)
  case Nil
  then show ?case by (auto split: if_splits)
next
  case (Cons c cs)
  from Cons.prems have ns: "\<not> startsWith (c # cs) tok" and n: "after_first tok cs = None"
    by (auto split: if_splits)
  show ?case
  proof (cases pre)
    case Nil
    with ns show ?thesis by (auto simp: startsWith_iff)
  next
    case (Cons p ps)
    with Cons.IH [OF n, of ps] show ?thesis by auto
  qed
qed

lemma str_includes_iff: "tok \<noteq> [] \<Longrightarrow> str_includes s tok \<longleftrightarrow> (\<exists>pre post. s = pre @ tok @ post)"
  unfolding str_includes_def
  using after_first_Some after_first_None by (metis not_None_eq)

lemma lazy_group_split:
  "\<exists>post. r = lazy_group r @ post \<and> (post = [] \<or> startsWith post header_mark)
      \<and> (\<forall>k < length (lazy_group r). \<not> startsWith (drop k r) header_mark)"
proof (induction r)
  case Nil
  then show ?case by simp
next
  case (Cons c cs)
  show ?case
  proof (cases "startsWith (c # cs) header_mark")
    case True
    then show ?thesis by (intro exI [of _ "c # cs"]) simp
  next
    case False
    from Cons obtain post where post: "cs = lazy_group cs @ post"
      "post = [] \<or> startsWith post header_mark"
      "\<forall>k < length (lazy_group cs). \<not> startsWith (drop k cs) header_mark" by blast
    have "\<forall>k < length (lazy_group (c # cs)). \<not> startsWith (drop k (c # cs)) header_mark"
    proof (intro allI impI)
      fix k assume k: "k < length (lazy_group (c # cs))"
      show "\<not> startsWith (drop k (c # cs)) header_mark"
      proof (cases k)
        case 0
        with False show ?thesis by simp
      next
        case (Suc j)
        with k False post(3) show ?thesis by simp
      qed
    qed
    with False post(1,2) show ?thesis by (intro exI [of _ post]) auto
  qed
qed

lemma dropWhile_split:
  "\<exists>ws. r = ws @ dropWhile P r \<and> (\<forall>c \<in> set ws. P c) \<and>
      (dropWhile P r = [] \<or> \<not> P (hd (dropWhile P r)))"
  by (metis takeWhile_dropWhile_id set_takeWhileD hd_dropWhile)


lemma final_answer_token_includes:
  "str_includes s final_answer_token \<Longrightarrow> str_includes s ''Final Answer:''"
proof -
  have tok: "final_answer_token = ''**'' @ ''Final Answer:'' @ ''**''"
    by (simp add: final_answer_token_def)
  assume "str_includes s final_answer_token"
  then obtain pre post where "s = pre @ final_answer_token @ post"
    by (auto simp: str_includes_iff final_answer_token_def)
  then have "s = (pre @ ''**'') @ ''Final Answer:'' @ (''**'' @ post)"
    by (simp add: tok)
  then show ?thesis
    by (subst str_includes_iff) (simp, blast)
qed

section \<open>C1: what the extraction function returns\<close>

text \<open>
  Claim C1 as stated, first half: for every moderator output that contains the literal
  token \<open>Final Answer:\<close>, the function returns a segment that follows the token in
  the input. The code looks for \<open>**Final Answer:**\<close>, the token in bold, and returns
  the whole text when the bold form is absent: on \<open>Final Answer: 42\<close> the result is
  the input itself, which follows no occurrence of the token.
\<close>

theorem extractFinalAnswerText_plain_token_counterexample:
  "\<not> (\<forall>s. str_includes s ''Final Answer:'' \<longrightarrow>
         (\<exists>pre post. s = pre @ ''Final Answer:'' @ extractFinalAnswerText s @ post))"
proof
  assume a: "\<forall>s. str_includes s ''Final Answer:'' \<longrightarrow>
         (\<exists>pre post. s = pre @ ''Final Answer:'' @ extractFinalAnswerText s @ post)"
  have inc: "str_includes ''Final Answer: 42'' ''Final Answer:''"
    by (simp add: str_includes_def)
  have ex: "extractFinalAnswerText ''Final Answer: 42'' = ''Final Answer: 42''"
    by (simp add: extractFinalAnswerText_def str_includes_def final_answer_token_def)
  from a inc obtain pre post where
    "''Final Answer: 42'' = pre @ ''Final Answer:'' @ extractFinalAnswerText ''Final Answer: 42'' @ post"
    by blast
  then have "length ''Final Answer: 42'' =
      length (pre @ ''Final Answer:'' @ ''Final Answer: 42'' @ post)"
    by (simp only: ex)
  then show False by simp
qed

text \<open>
  Claim C1, amended. A text without the literal \<open>Final Answer:\<close>, and more
  generally a text without \<open>**Final Answer:**\<close>, is returned unchanged. A text that
  contains \<open>**Final Answer:**\<close> splits at the leftmost occurrence into a prefix, the
  token, a run \<open>ws\<close> of white space that is as long as possible, a segment and a
  rest; the rest is empty or starts with a blank line followed by \<open>**\<close>, no such
  mark starts inside the segment, and the result is the segment trimmed.
\<close>

theorem extractFinalAnswerText_bold_token:
  "(\<not> str_includes s ''Final Answer:'' \<longrightarrow> extractFinalAnswerText s = s) \<and>
   (\<not> str_includes s final_answer_token \<longrightarrow> extractFinalAnswerText s = s) \<and>
   (str_includes s final_answer_token \<longrightarrow>
      (\<exists>pre ws seg post.
         s = pre @ final_answer_token @ ws @ seg @ post \<and>
         \<not> str_includes (pre @ butlast final_answer_token) final_answer_token \<and>
         (\<forall>c \<in> set ws. isWhiteSpace c) \<and>
         (seg @ post = [] \<or> \<not> isWhiteSpace (hd (seg @ post))) \<and>
         (post = [] \<or> startsWith post header_mark) \<and>
         (\<forall>k < length seg. \<not> startsWith (drop k (seg @ post)) header_mark) \<and>
         extractFinalAnswerText s = trim seg))"
  (is "?A \<and> ?B \<and> (_ \<longrightarrow> ?C)")
proof (intro conjI impI)
  assume "\<not> str_includes s ''Final Answer:''"
  then have "\<not> str_includes s final_answer_token"
    using final_answer_token_includes by blast
  then show "extractFinalAnswerText s = s"
    by (simp add: extractFinalAnswerText_def)
next
  assume "\<not> str_includes s final_answer_token"
  then show "extractFinalAnswerText s = s"
    by (simp add: extractFinalAnswerText_def)
next
  assume inc: "str_includes s final_answer_token"
  then obtain rest where rest: "after_first final_answer_token s = Some rest"
    by (auto simp: str_includes_def)
  have ne: "final_answer_token \<noteq> []" by (simp add: final_answer_token_def)
  from after_first_Some [OF ne rest] obtain pre where
    pre: "s = pre @ final_answer_token @ rest"
      "after_first final_answer_token (pre @ butlast final_answer_token) = None"
    by blast
  define body where "body = dropWhile isWhiteSpace rest"
  from dropWhile_split [of rest isWhiteSpace] obtain ws where
    ws: "rest = ws @ body" "\<forall>c \<in> set ws. isWhiteSpace c"
      "body = [] \<or> \<not> isWhiteSpace (hd body)"
    unfolding body_def by blast
  from lazy_group_split [of body] obtain post where
    post: "body = lazy_group body @ post" "post = [] \<or> startsWith post header_mark"
      "\<forall>k < length (lazy_group body). \<not> startsWith (drop k body) header_mark"
    by blast
  have res: "extractFinalAnswerText s = trim (lazy_group body)"
    using inc rest by (simp add: extractFinalAnswerText_def regex_match_def body_def)
  show ?C
  proof (rule exI [of _ pre], rule exI [of _ ws], rule exI [of _ "lazy_group body"],
      rule exI [of _ post], intro conjI)
    show "s = pre @ final_answer_token @ ws @ lazy_group body @ post"
      using pre(1) ws(1) post(1) by simp
    show "\<not> str_includes (pre @ butlast final_answer_token) final_answer_token"
      using pre(2) by (simp add: str_includes_def)
    show "\<forall>c \<in> set ws. isWhiteSpace c" by (rule ws(2))
    show "lazy_group body @ post = [] \<or> \<not> isWhiteSpace (hd (lazy_group body @ post))"
      using ws(3) post(1) by simp
    show "post = [] \<or> startsWith post header_mark" by (rule post(2))
    show "\<forall>k < length (lazy_group body). \<not> startsWith (drop k (lazy_group body @ post)) header_mark"
      using post(1,3) by metis
    show "extractFinalAnswerText s = trim (lazy_group body)" by (rule res)
  qed
qed

text \<open>Witness for C1: the three cases of the theorem at concrete messages.\<close>

theorem extractFinalAnswerText_bold_token_witness:
  "\<not> str_includes ''Final Answer: 42'' final_answer_token \<and>
   extractFinalAnswerText ''Final Answer: 42'' = ''Final Answer: 42'' \<and>
   \<not> str_includes ''no answer'' ''Final Answer:'' \<and>
   extractFinalAnswerText ''no answer'' = ''no answer'' \<and>
   str_includes ''**Final Answer:** 42'' final_answer_token \<and>
   (\<exists>pre ws seg post.
      ''**Final Answer:** 42'' = pre @ final_answer_token @ ws @ seg @ post \<and>
      extractFinalAnswerText ''**Final Answer:** 42'' = trim seg)"
proof -
  have a: "\<not> str_includes ''Final Answer: 42'' final_answer_token"
    by (simp add: str_includes_def final_answer_token_def)
  have b: "\<not> str_includes ''no answer'' ''Final Answer:''"
    by (simp add: str_includes_def)
  have c: "str_includes ''**Final Answer:** 42'' final_answer_token"
    by (simp add: str_includes_def final_answer_token_def)
  from a extractFinalAnswerText_bold_token [of "''Final Answer: 42''"]
  have a': "extractFinalAnswerText ''Final Answer: 42'' = ''Final Answer: 42''" by blast
  from b extractFinalAnswerText_bold_token [of "''no answer''"]
  have b': "extractFinalAnswerText ''no answer'' = ''no answer''" by blast
  from c extractFinalAnswerText_bold_token [of "''**Final Answer:** 42''"]
  have c': "\<exists>pre ws seg post.
      ''**Final Answer:** 42'' = pre @ final_answer_token @ ws @ seg @ post \<and>
      extractFinalAnswerText ''**Final Answer:** 42'' = trim seg" by blast
  from a a' b b' c c' show ?thesis by blast
qed

text \<open>
  The function on three messages: the segment ends at a blank line followed by a bold
  header; a header right after the token is swallowed with the white space and becomes
  part of the segment; a header after a single line break does not end the segment.
\<close>

lemma extractFinalAnswerText_examples:
  "extractFinalAnswerText ''**Final Answer:** 42 \<newline>\<newline>**Next** y'' = ''42''"
  "extractFinalAnswerText ''**Final Answer:**\<newline>\<newline>**Next** y'' = ''**Next** y''"
  "extractFinalAnswerText ''**Final Answer:** a\<newline>**b**'' = ''a\<newline>**b**''"
  by (simp_all add: extractFinalAnswerText_def str_includes_def final_answer_token_def
      regex_match_def header_mark_def isWhiteSpace_def trim_def)


section \<open>Facts about splitting a string\<close>

lemma split_on_not_Nil: "split_on sep s \<noteq> []"
  by (induction s) (auto split: list.splits)

lemma split_on_append:
  "split_on sep (x @ y) = butlast (split_on sep x) @ split_on sep (last (split_on sep x) @ y)"
proof (induction x)
  case Nil
  then show ?case by simp
next
  case (Cons c cs)
  show ?case
  proof (cases "c = sep")
    case True
    with Cons show ?thesis by (simp add: split_on_not_Nil)
  next
    case False
    obtain w ws where w: "split_on sep cs = w # ws"
      using split_on_not_Nil [of sep cs] by (cases "split_on sep cs") auto
    show ?thesis
    proof (cases ws)
      case Nil
      with w False Cons show ?thesis by simp
    next
      case (Cons v vs)
      with w False Cons.IH show ?thesis by simp
    qed
  qed
qed

lemma split_on_no_sep: "sep \<notin> set s \<Longrightarrow> split_on sep s = [s]"
  by (induction s) auto

lemma split_on_pieces: "w \<in> set (split_on sep s) \<Longrightarrow> sep \<notin> set w"
proof (induction s arbitrary: w)
  case Nil
  then show ?case by simp
next
  case (Cons c cs)
  obtain v vs where v: "split_on sep cs = v # vs"
    using split_on_not_Nil [of sep cs] by (cases "split_on sep cs") auto
  show ?case
  proof (cases "c = sep")
    case True
    with Cons show ?thesis by auto
  next
    case False
    with Cons.prems v have "w = c # v \<or> w \<in> set vs" by simp
    then show ?thesis
    proof
      assume "w = c # v"
      moreover have "sep \<notin> set v" using Cons.IH [of v] v by simp
      ultimately show ?thesis using False by simp
    next
      assume "w \<in> set vs"
      then show ?thesis using Cons.IH [of w] v by simp
    qed
  qed
qed

lemma split_on_terminated:
  "sep \<notin> set l \<Longrightarrow> split_on sep (l @ sep # rest) = l # split_on sep rest"
  by (induction l) auto

lemma split_on_lines:
  "(\<And>l. l \<in> set lines \<Longrightarrow> sep \<notin> set l) \<Longrightarrow>
     split_on sep (concat (map (\<lambda>l. l @ [sep]) lines)) = lines @ [[]]"
proof (induction lines)
  case Nil
  then show ?case by simp
next
  case (Cons l ls)
  then have "sep \<notin> set l" and "split_on sep (concat (map (\<lambda>l. l @ [sep]) ls)) = ls @ [[]]"
    by auto
  then show ?case by (simp add: split_on_terminated)
qed


section \<open>C10: the duplicate badge of the memory view\<close>

lemma toLowerCase_Nil_iff: "toLowerCase s = [] \<longleftrightarrow> s = []"
  by (simp add: toLowerCase_def)

lemma set_size_intersection:
  "length (remdups (filter (\<lambda>x. x \<in> set (remdups ys)) (remdups xs))) = card (set xs \<inter> set ys)"
proof -
  have "set (filter (\<lambda>x. x \<in> set (remdups ys)) (remdups xs)) = set xs \<inter> set ys"
    by auto
  then show ?thesis
    by (simp only: length_remdups_card_conv)
qed

lemma set_size_intersection_plain:
  "length (remdups (filter (\<lambda>x. x \<in> set ys) (remdups xs))) = card (set xs \<inter> set ys)"
  using set_size_intersection [of ys xs] by simp

lemma set_size_union:
  "length (remdups (remdups xs @ remdups ys)) = card (set xs \<union> set ys)"
  by (simp add: length_remdups_card_conv)

text \<open>
  Claim C10 as stated, second part: an entry at an index above 0 whose response equals
  the response of the entry before it, case-insensitively, is always flagged. The code
  returns \<open>false\<close> as soon as the previous response is empty (\<open>!previousText\<close>), before
  it compares: two entries with empty responses are equal and the second is not flagged.
\<close>

theorem isDuplicateContent_equal_responses_counterexample:
  "\<not> (\<forall>entries index. 0 < index \<and> index < length entries \<and>
          toLowerCase (response (entries ! index)) =
            toLowerCase (response (entries ! (index - 1))) \<longrightarrow>
          isDuplicateContent entries (entries ! index) index)"
proof
  assume a: "\<forall>entries index. 0 < index \<and> index < length entries \<and>
          toLowerCase (response (entries ! index)) =
            toLowerCase (response (entries ! (index - 1))) \<longrightarrow>
          isDuplicateContent entries (entries ! index) index"
  have "isDuplicateContent [sample_entry '''', sample_entry ''''] ([sample_entry '''', sample_entry ''''] ! 1) 1"
    by (rule a [rule_format]) simp
  then show False
    by (simp add: isDuplicateContent_def sample_entry_def toLowerCase_def)
qed

text \<open>
  Claim C10, amended. An entry is flagged exactly when its index is above 0, the entry
  before it in the memory list exists and has a non-empty response, and either the two
  responses are equal case-insensitively or the Jaccard similarity of the space-split
  word sets of the two lowercased responses strictly exceeds 0.8. So the entry at index 0
  is never flagged, and neither is one whose predecessor's response is empty. Only the
  entry at \<open>index - 1\<close> of the memory list is consulted: any other list with the same
  entry there gives the same answer.
\<close>

theorem isDuplicateContent_spec:
  "(isDuplicateContent entries entry index \<longleftrightarrow>
      0 < index \<and> index - 1 < length entries \<and>
      response (entries ! (index - 1)) \<noteq> [] \<and>
      (toLowerCase (response entry) = toLowerCase (response (entries ! (index - 1))) \<or>
       jaccard_exceeds_80 (response entry) (response (entries ! (index - 1))))) \<and>
   (\<forall>others. index - 1 < length entries \<and> index - 1 < length others \<and>
        others ! (index - 1) = entries ! (index - 1) \<longrightarrow>
        isDuplicateContent others entry index = isDuplicateContent entries entry index)"
proof (rule conjI)
  show "isDuplicateContent entries entry index \<longleftrightarrow>
      0 < index \<and> index - 1 < length entries \<and>
      response (entries ! (index - 1)) \<noteq> [] \<and>
      (toLowerCase (response entry) = toLowerCase (response (entries ! (index - 1))) \<or>
       jaccard_exceeds_80 (response entry) (response (entries ! (index - 1))))"
  proof (cases "index = 0 \<or> \<not> index - 1 < length entries \<or>
      response (entries ! (index - 1)) = []")
    case True
    then show ?thesis
      by (auto simp: isDuplicateContent_def toLowerCase_Nil_iff)
  next
    case False
    then have i: "index \<noteq> 0" "index - 1 < length entries"
      and p: "toLowerCase (response (entries ! (index - 1))) \<noteq> []"
      by (auto simp: toLowerCase_Nil_iff)
    show ?thesis
    proof (cases "toLowerCase (response entry) = toLowerCase (response (entries ! (index - 1)))")
      case True
      with i p False show ?thesis
        by (simp add: isDuplicateContent_def)
    next
      case neq: False
      have "isDuplicateContent entries entry index =
            jaccard_exceeds_80 (response entry) (response (entries ! (index - 1)))"
        using i p neq
        by (simp add: isDuplicateContent_def Let_def jaccard_exceeds_80_def word_set_def
            set_size_intersection_plain set_size_union)
      with i False neq show ?thesis by auto
    qed
  qed
next
  show "\<forall>others. index - 1 < length entries \<and> index - 1 < length others \<and>
        others ! (index - 1) = entries ! (index - 1) \<longrightarrow>
        isDuplicateContent others entry index = isDuplicateContent entries entry index"
    by (simp add: isDuplicateContent_def)
qed


text \<open>
  Witness for C10. Six words against seven share six of seven (above 0.8): flagged. Four
  words against five share four of five (0.8, not above): not flagged. An empty previous
  response is never flagged, although the word sets of a blank and of the empty string
  are equal. Replacing the other entries of the list changes nothing.
\<close>

theorem isDuplicateContent_spec_witness:
  "isDuplicateContent [sample_entry ''a b c d e f'', sample_entry ''a b c d e f g'']
     (sample_entry ''a b c d e f g'') 1 \<and>
   \<not> isDuplicateContent [sample_entry ''a b c d'', sample_entry ''a b c d e'']
     (sample_entry ''a b c d e'') 1 \<and>
   \<not> isDuplicateContent [sample_entry '''', sample_entry '' '']
     (sample_entry '' '') 1 \<and>
   jaccard_exceeds_80 '' '' '''' \<and>
   isDuplicateContent [sample_entry ''a b c d e f'', sample_entry ''x y'']
     (sample_entry ''a b c d e f g'') 1 =
   isDuplicateContent [sample_entry ''a b c d e f'', sample_entry ''a b c d e f g'']
     (sample_entry ''a b c d e f g'') 1"
proof -
  have j1: "jaccard_exceeds_80 ''a b c d e f g'' ''a b c d e f''"
    by code_simp
  have j2: "\<not> jaccard_exceeds_80 ''a b c d e'' ''a b c d''"
    by code_simp
  have j3: "jaccard_exceeds_80 '' '' ''''"
    by code_simp
  have l1: "toLowerCase ''a b c d e'' \<noteq> toLowerCase ''a b c d''"
    by (simp add: toLowerCase_def)
  have c1: "isDuplicateContent [sample_entry ''a b c d e f'', sample_entry ''a b c d e f g'']
     (sample_entry ''a b c d e f g'') 1"
    using j1 isDuplicateContent_spec
      [of "[sample_entry ''a b c d e f'', sample_entry ''a b c d e f g'']"
          "sample_entry ''a b c d e f g''" 1]
    by (simp add: sample_entry_def)
  have c2: "\<not> isDuplicateContent [sample_entry ''a b c d'', sample_entry ''a b c d e'']
     (sample_entry ''a b c d e'') 1"
    using j2 l1 isDuplicateContent_spec
      [of "[sample_entry ''a b c d'', sample_entry ''a b c d e'']"
          "sample_entry ''a b c d e''" 1]
    by (simp add: sample_entry_def)
  have c3: "\<not> isDuplicateContent [sample_entry '''', sample_entry '' '']
     (sample_entry '' '') 1"
    using isDuplicateContent_spec
      [of "[sample_entry '''', sample_entry '' '']" "sample_entry '' ''" 1]
    by (simp add: sample_entry_def)
  have c4: "isDuplicateContent [sample_entry ''a b c d e f'', sample_entry ''x y'']
     (sample_entry ''a b c d e f g'') 1 =
   isDuplicateContent [sample_entry ''a b c d e f'', sample_entry ''a b c d e f g'']
     (sample_entry ''a b c d e f g'') 1"
    using isDuplicateContent_spec
      [of "[sample_entry ''a b c d e f'', sample_entry ''a b c d e f g'']"
          "sample_entry ''a b c d e f g''" 1]
    by simp
  from c1 c2 c3 j3 c4 show ?thesis by blast
qed

section \<open>C9: the events dispatched do not depend on the chunks\<close>

lemma dispatched_events_concat:
  "dispatched_events P lines = concat (map (dispatch_line P) lines)"
  by (induction lines)
    (auto simp: dispatched_events_def dispatch_line_def split: option.splits)

lemma dispatched_events_append:
  "dispatched_events P (xs @ ys) = dispatched_events P xs @ dispatched_events P ys"
  by (simp add: dispatched_events_concat)

lemma complete_lines_append:
  "complete_lines (x @ y) =
     complete_lines x @ complete_lines (pop_or_empty (split_on CHR 0x0A x) @ y)"
proof -
  have "pop_or_empty (split_on CHR 0x0A x) = last (split_on CHR 0x0A x)"
    using split_on_not_Nil [of "CHR 0x0A" x]
    by (cases "split_on CHR 0x0A x") (auto simp: pop_or_empty_def)
  then show ?thesis
    unfolding complete_lines_def
    by (subst split_on_append) (simp add: butlast_append split_on_not_Nil)
qed

lemma pop_or_empty_no_newline: "CHR 0x0A \<notin> set (pop_or_empty (split_on CHR 0x0A x))"
proof -
  have "last (split_on CHR 0x0A x) \<in> set (split_on CHR 0x0A x)"
    using split_on_not_Nil by simp
  then have "CHR 0x0A \<notin> set (last (split_on CHR 0x0A x))"
    by (rule split_on_pieces)
  then show ?thesis
    using split_on_not_Nil [of "CHR 0x0A" x]
    by (cases "split_on CHR 0x0A x") (auto simp: pop_or_empty_def)
qed

text \<open>
  The loop with a buffer that holds no line feed: what it dispatches from the chunks that
  remain are the events of the complete lines of the buffer followed by the text of those
  chunks.
\<close>

lemma read_loop_buffer:
  assumes dec: "stream_decoder decode"
  shows "CHR 0x0A \<notin> set buffer \<Longrightarrow>
     read_loop decode P d buffer chunks =
       dispatched_events P (complete_lines (buffer @ snd (decode d (concat chunks))))"
proof (induction chunks arbitrary: d buffer)
  case Nil
  from dec have "decode d [] = (d, [])" by (simp add: stream_decoder_def)
  with Nil show ?case
    by (simp add: complete_lines_def split_on_no_sep dispatched_events_def)
next
  case (Cons c cs)
  obtain d' t where t: "decode d c = (d', t)" by (cases "decode d c")
  obtain d2 s2 where s2: "decode d' (concat cs) = (d2, s2)" by (cases "decode d' (concat cs)")
  from dec t s2 have whole: "decode d (c @ concat cs) = (d2, t @ s2)"
    by (simp add: stream_decoder_def)
  define buffer' where "buffer' = pop_or_empty (split_on CHR 0x0A (buffer @ t))"
  have nb: "CHR 0x0A \<notin> set buffer'"
    unfolding buffer'_def by (rule pop_or_empty_no_newline)
  have ih: "read_loop decode P d' buffer' cs =
       dispatched_events P (complete_lines (buffer' @ s2))"
    using Cons.IH [OF nb, of d'] s2 by simp
  have "read_loop decode P d buffer (c # cs) =
      dispatched_events P (complete_lines (buffer @ t)) @ read_loop decode P d' buffer' cs"
    using t by (simp add: Let_def buffer'_def complete_lines_def dispatched_events_concat)
  also have "\<dots> = dispatched_events P (complete_lines ((buffer @ t) @ s2))"
    unfolding ih
    by (subst complete_lines_append [of "buffer @ t" s2])
      (simp add: dispatched_events_append buffer'_def)
  finally show ?case using whole by simp
qed

text \<open>
  Claim C9. With a decoder in stream mode: two partitions of the same bytes into chunks
  (empty chunks included) make the loop dispatch the same sequence of events; that
  sequence is the events of the complete lines of the decoded stream; and when the decoded
  text consists of lines each ended by a line feed, it is the events of exactly these
  lines, in order. By \<open>dispatched_events\<close> each line that begins with \<open>data: \<close> and
  whose remainder parses contributes its event once, and every other line, malformed JSON
  included, contributes nothing while the lines after it are still processed.
\<close>

theorem read_loop_chunk_independent:
  "stream_decoder decode \<longrightarrow>
     (concat chunks = concat chunks' \<longrightarrow>
        read_loop decode JSON_parse d [] chunks = read_loop decode JSON_parse d [] chunks') \<and>
     read_loop decode JSON_parse d [] chunks =
       dispatched_events JSON_parse (complete_lines (snd (decode d (concat chunks)))) \<and>
     (\<forall>lines. (\<forall>l \<in> set lines. CHR 0x0A \<notin> set l) \<and>
         snd (decode d (concat chunks)) = concat (map (\<lambda>l. l @ [CHR 0x0A]) lines) \<longrightarrow>
         read_loop decode JSON_parse d [] chunks = dispatched_events JSON_parse lines)"
proof
  assume dec: "stream_decoder decode"
  have whole: "read_loop decode JSON_parse d [] cs =
      dispatched_events JSON_parse (complete_lines (snd (decode d (concat cs))))" for cs
    using read_loop_buffer [OF dec, of "[]" JSON_parse d cs] by simp
  have same: "concat chunks = concat chunks' \<longrightarrow>
      read_loop decode JSON_parse d [] chunks = read_loop decode JSON_parse d [] chunks'"
    by (simp add: whole)
  have lines: "\<forall>lines. (\<forall>l \<in> set lines. CHR 0x0A \<notin> set l) \<and>
         snd (decode d (concat chunks)) = concat (map (\<lambda>l. l @ [CHR 0x0A]) lines) \<longrightarrow>
         read_loop decode JSON_parse d [] chunks = dispatched_events JSON_parse lines"
  proof (intro allI impI)
    fix lines
    assume a: "(\<forall>l \<in> set lines. CHR 0x0A \<notin> set l) \<and>
         snd (decode d (concat chunks)) = concat (map (\<lambda>l. l @ [CHR 0x0A]) lines)"
    then have "split_on CHR 0x0A (concat (map (\<lambda>l. l @ [CHR 0x0A]) lines)) = lines @ [[]]"
      by (intro split_on_lines) blast
    then have "complete_lines (snd (decode d (concat chunks))) = lines"
      using a by (simp add: complete_lines_def)
    then show "read_loop decode JSON_parse d [] chunks = dispatched_events JSON_parse lines"
      by (simp add: whole)
  qed
  from same whole [of chunks] lines
  show "(concat chunks = concat chunks' \<longrightarrow>
        read_loop decode JSON_parse d [] chunks = read_loop decode JSON_parse d [] chunks') \<and>
     read_loop decode JSON_parse d [] chunks =
       dispatched_events JSON_parse (complete_lines (snd (decode d (concat chunks)))) \<and>
     (\<forall>lines. (\<forall>l \<in> set lines. CHR 0x0A \<notin> set l) \<and>
         snd (decode d (concat chunks)) = concat (map (\<lambda>l. l @ [CHR 0x0A]) lines) \<longrightarrow>
         read_loop decode JSON_parse d [] chunks = dispatched_events JSON_parse lines)"
    by blast
qed

lemma latin1_stream_decoder: "stream_decoder latin1_decode"
  by (simp add: stream_decoder_def latin1_decode_def)

text \<open>
  Witness for C9: one stream of six lines, each ended by a line feed, in four chunks (cut
  inside lines, one chunk empty) and in one chunk. The line \<open>data: x\<close> does not parse
  and the line \<open>id: 7\<close> has another prefix; both are skipped and the event after them
  is dispatched.
\<close>

theorem read_loop_chunk_independent_witness:
  "stream_decoder latin1_decode \<and>
   concat [''data: 1\<newline>da'', ''ta: 2\<newline>\<newline>dat'', [], ''a: x\<newline>id: 7\<newline>data: 3\<newline>''] =
     concat [''data: 1\<newline>data: 2\<newline>\<newline>data: x\<newline>id: 7\<newline>data: 3\<newline>''] \<and>
   read_loop latin1_decode parse_digit () []
     [''data: 1\<newline>da'', ''ta: 2\<newline>\<newline>dat'', [], ''a: x\<newline>id: 7\<newline>data: 3\<newline>''] =
   read_loop latin1_decode parse_digit () []
     [''data: 1\<newline>data: 2\<newline>\<newline>data: x\<newline>id: 7\<newline>data: 3\<newline>''] \<and>
   read_loop latin1_decode parse_digit () []
     [''data: 1\<newline>da'', ''ta: 2\<newline>\<newline>dat'', [], ''a: x\<newline>id: 7\<newline>data: 3\<newline>''] =
     dispatched_events parse_digit
       [''data: 1'', ''data: 2'', [], ''data: x'', ''id: 7'', ''data: 3''] \<and>
   dispatched_events parse_digit
     [''data: 1'', ''data: 2'', [], ''data: x'', ''id: 7'', ''data: 3''] = [1, 2, 3]"
proof -
  let ?four = "[''data: 1\<newline>da'', ''ta: 2\<newline>\<newline>dat'', [], ''a: x\<newline>id: 7\<newline>data: 3\<newline>'']"
  let ?one = "[''data: 1\<newline>data: 2\<newline>\<newline>data: x\<newline>id: 7\<newline>data: 3\<newline>'']"
  let ?lines = "[''data: 1'', ''data: 2'', [], ''data: x'', ''id: 7'', ''data: 3'']"
  have dec: "stream_decoder latin1_decode"
    by (rule latin1_stream_decoder)
  have eq: "concat ?four = concat ?one"
    by simp
  have nl: "\<forall>l \<in> set ?lines. CHR 0x0A \<notin> set l"
    by simp
  have decoded: "snd (latin1_decode () (concat ?four)) = concat (map (\<lambda>l. l @ [CHR 0x0A]) ?lines)"
    by (simp add: latin1_decode_def)
  have ev: "dispatched_events parse_digit ?lines = [1, 2, 3]"
    by (simp add: dispatched_events_def parse_digit_def)
  note t = read_loop_chunk_independent [of latin1_decode ?four ?one parse_digit "()"]
  from dec eq t have a: "read_loop latin1_decode parse_digit () [] ?four =
      read_loop latin1_decode parse_digit () [] ?one"
    by blast
  from dec nl decoded t have b: "read_loop latin1_decode parse_digit () [] ?four =
      dispatched_events parse_digit ?lines"
    by blast
  from dec eq a b ev show ?thesis by blast
qed

section \<open>C6: an empty query\<close>

text \<open>
  Claim C6. A query that is empty or only white space makes the classifier fail with
  \<open>InvalidInput\<close>, the request is answered with status 400, the store is left as it was
  and no analyzer is invoked, whatever the pipeline would have done. The client agrees on
  its side: for such a query the form does not call \<open>onSubmit\<close>, and \<open>handleSubmit\<close>
  returns at once with the state unchanged and without any effect, so that it sends no
  request for it.
\<close>

theorem blank_query_invalid_input:
  "trim q = [] \<longrightarrow>
     classify q thread_history focus_hint = Inl InvalidInput \<and>
     run_request pipeline q thread focus_hint store =
       \<lparr>response_status = Some 400, failure = Some InvalidInput, store_after = store,
        analyzers_invoked = []\<rparr> \<and>
     handleInternalSubmit \<lparr>internalInputValue = q, queryType = effort\<rparr> =
       (\<lparr>internalInputValue = q, queryType = effort\<rparr>, None) \<and>
     handleSubmit env q effort st = (st, []) \<and>
     submit_form env \<lparr>internalInputValue = q, queryType = effort\<rparr> st =
       (\<lparr>internalInputValue = q, queryType = effort\<rparr>, st, [])"
proof (intro conjI impI)
  assume b: "trim q = []"
  then show "classify q thread_history focus_hint = Inl InvalidInput"
    by (simp add: classify_def)
  from b show "run_request pipeline q thread focus_hint store =
       \<lparr>response_status = Some 400, failure = Some InvalidInput, store_after = store,
        analyzers_invoked = []\<rparr>"
    by (simp add: run_request_def classify_def)
  from b show "handleInternalSubmit \<lparr>internalInputValue = q, queryType = effort\<rparr> =
        (\<lparr>internalInputValue = q, queryType = effort\<rparr>, None)"
    by (simp add: handleInternalSubmit_def)
  from b show "handleSubmit env q effort st = (st, [])"
    by (simp add: handleSubmit_def)
  from b show "submit_form env \<lparr>internalInputValue = q, queryType = effort\<rparr> st =
        (\<lparr>internalInputValue = q, queryType = effort\<rparr>, st, [])"
    by (simp add: submit_form_def handleInternalSubmit_def)
qed

text \<open>
  Witness for C6: a query of a blank, a tab and a line feed against a store of one entry,
  and a query of words, which the same pipeline answers with status 200.
\<close>

theorem blank_query_invalid_input_witness:
  "trim [CHR '' '', CHR 0x09, CHR 0x0A] = [] \<and>
   run_request sample_pipeline [CHR '' '', CHR 0x09, CHR 0x0A] ''t'' None
     [sample_conversation ''a'' ''t'' 1 ''Use tiered pricing''] =
     \<lparr>response_status = Some 400, failure = Some InvalidInput,
      store_after = [sample_conversation ''a'' ''t'' 1 ''Use tiered pricing''],
      analyzers_invoked = []\<rparr> \<and>
   handleSubmit sample_env [CHR '' '', CHR 0x09, CHR 0x0A] ''general'' initial_state =
     (initial_state, []) \<and>
   run_request sample_pipeline ''Build a food delivery app'' ''t'' None
     [sample_conversation ''a'' ''t'' 1 ''Use tiered pricing''] =
     \<lparr>response_status = Some 200, failure = None,
      store_after = [sample_conversation ''a'' ''t'' 1 ''Use tiered pricing''],
      analyzers_invoked = [Domain, UxUi, Technical, Revenue]\<rparr>"
proof -
  have b: "trim [CHR '' '', CHR 0x09, CHR 0x0A] = []"
    by (simp add: trim_def isWhiteSpace_def)
  note t = blank_query_invalid_input [of "[CHR '' '', CHR 0x09, CHR 0x0A]" _ None
      sample_pipeline "''t''" "[sample_conversation ''a'' ''t'' 1 ''Use tiered pricing'']"
      "''general''" sample_env initial_state]
  from b t have c1: "run_request sample_pipeline [CHR '' '', CHR 0x09, CHR 0x0A] ''t'' None
     [sample_conversation ''a'' ''t'' 1 ''Use tiered pricing''] =
     \<lparr>response_status = Some 400, failure = Some InvalidInput,
      store_after = [sample_conversation ''a'' ''t'' 1 ''Use tiered pricing''],
      analyzers_invoked = []\<rparr>"
    by blast
  from b t have c2: "handleSubmit sample_env [CHR '' '', CHR 0x09, CHR 0x0A] ''general''
      initial_state = (initial_state, [])"
    by blast
  have nb: "trim ''Build a food delivery app'' \<noteq> []"
    by (simp add: trim_def isWhiteSpace_def)
  then have c3: "run_request sample_pipeline ''Build a food delivery app'' ''t'' None
     [sample_conversation ''a'' ''t'' 1 ''Use tiered pricing''] =
     \<lparr>response_status = Some 200, failure = None,
      store_after = [sample_conversation ''a'' ''t'' 1 ''Use tiered pricing''],
      analyzers_invoked = [Domain, UxUi, Technical, Revenue]\<rparr>"
    by (simp add: run_request_def classify_def sample_pipeline_def Let_def)
  from b c1 c2 c3 show ?thesis by blast
qed

section \<open>C3: the follow-up flag\<close>

text \<open>
  The graph as documented: a query is a follow-up exactly when the history of its thread
  holds at least one entry (\<open>is_followup = len(agent_history) > 0\<close>), and with a history
  \<open>finalize_answer\<close> returns a completed result whose \<open>is_followup\<close> is set. Without a
  history both functions leave their follow-up branch, and what they return is their
  elided remainder.
\<close>

lemma graph_followup_from_history:
  "(is_followup_query state \<longleftrightarrow> (\<exists>entry earlier. agent_history state = entry # earlier)) \<and>
   (agent_history state \<noteq> [] \<longrightarrow>
      is_followup (finalize_answer full_answer state) \<and>
      is_complete (finalize_answer full_answer state)) \<and>
   (agent_history state = [] \<longrightarrow>
      \<not> is_followup_query state \<and>
      finalize_answer full_answer state = full_answer state \<and>
      detect_followup_and_route more_routing state = more_routing state)"
proof (intro conjI impI)
  show "is_followup_query state \<longleftrightarrow> (\<exists>entry earlier. agent_history state = entry # earlier)"
    by (cases "agent_history state") (simp_all add: is_followup_query_def)
next
  assume h: "agent_history state \<noteq> []"
  then have f: "is_followup_query state" by (simp add: is_followup_query_def)
  then show "is_followup (finalize_answer full_answer state)"
    by (simp add: finalize_answer_def Let_def)
  from f show "is_complete (finalize_answer full_answer state)"
    by (simp add: finalize_answer_def Let_def)
next
  assume h: "agent_history state = []"
  then show "\<not> is_followup_query state" by (simp add: is_followup_query_def)
  from h show "finalize_answer full_answer state = full_answer state"
    by (simp add: finalize_answer_def is_followup_query_def)
  from h show "detect_followup_and_route more_routing state = more_routing state"
    by (simp add: detect_followup_and_route_def is_followup_query_def)
qed








section \<open>C4: a query about pricing\<close>









section \<open>Facts about the memory store\<close>

lemma same_entry_tag: "same_entry (entry\<lparr>ce_duplicate := d\<rparr>) entry"
  by (simp add: same_entry_def)


section \<open>C2: the duplicate tag of a new entry\<close>

text \<open>The last \<open>n\<close> elements of a list are those at the indices from \<open>length - n\<close> on.\<close>

lemma recent_window_nth:
  "x \<in> set (recent_window n xs) \<longleftrightarrow> (\<exists>i < length xs. length xs \<le> i + n \<and> xs ! i = x)"
proof
  assume "x \<in> set (recent_window n xs)"
  then obtain j where j: "j < length xs - (length xs - n)" "xs ! (length xs - n + j) = x"
    by (auto simp: recent_window_def in_set_conv_nth)
  then show "\<exists>i < length xs. length xs \<le> i + n \<and> xs ! i = x"
    by (intro exI [of _ "length xs - n + j"]) auto
next
  assume "\<exists>i < length xs. length xs \<le> i + n \<and> xs ! i = x"
  then obtain i where i: "i < length xs" "length xs \<le> i + n" "xs ! i = x" by blast
  then have "drop (length xs - n) xs ! (i - (length xs - n)) = x" by simp
  moreover from i have "i - (length xs - n) < length (drop (length xs - n) xs)" by auto
  ultimately show "x \<in> set (recent_window n xs)"
    unfolding recent_window_def by (metis nth_mem)
qed

lemma has_recent_duplicate_iff:
  "has_recent_duplicate store entry \<longleftrightarrow>
     (\<exists>i < length (thread_entries (ce_thread_id entry) store).
        length (thread_entries (ce_thread_id entry) store) \<le> i + 5 \<and>
        fingerprint (ce_final_answer (thread_entries (ce_thread_id entry) store ! i)) =
          fingerprint (ce_final_answer entry))"
  unfolding has_recent_duplicate_def list_ex_iff duplicate_window_def Bex_def recent_window_nth
  by metis

text \<open>
  Claim C2. A new entry, one whose identifier the store does not hold yet, is stored at
  the end of the log, unchanged but for its tag, in either case; and its tag is set
  exactly when one of the last five entries of its thread has the same fingerprint.
\<close>

theorem duplicate_tag_iff:
  "ce_entry_id entry \<notin> set (map ce_entry_id store) \<longrightarrow>
     (\<exists>stored. append_entry entry store = store @ [stored] \<and> same_entry stored entry \<and>
        (ce_duplicate stored \<longleftrightarrow>
           (\<exists>i < length (thread_entries (ce_thread_id entry) store).
              length (thread_entries (ce_thread_id entry) store) \<le> i + 5 \<and>
              fingerprint (ce_final_answer (thread_entries (ce_thread_id entry) store ! i)) =
                fingerprint (ce_final_answer entry))))"
proof
  assume fresh: "ce_entry_id entry \<notin> set (map ce_entry_id store)"
  define stored where "stored = entry\<lparr>ce_duplicate := has_recent_duplicate store entry\<rparr>"
  from fresh have "append_entry entry store = store @ [stored]"
    by (simp add: append_entry_def stored_def)
  moreover have "same_entry stored entry"
    unfolding stored_def by (rule same_entry_tag)
  moreover have "ce_duplicate stored = has_recent_duplicate store entry"
    by (simp add: stored_def)
  ultimately show "\<exists>stored. append_entry entry store = store @ [stored] \<and>
      same_entry stored entry \<and>
        (ce_duplicate stored \<longleftrightarrow>
           (\<exists>i < length (thread_entries (ce_thread_id entry) store).
              length (thread_entries (ce_thread_id entry) store) \<le> i + 5 \<and>
              fingerprint (ce_final_answer (thread_entries (ce_thread_id entry) store ! i)) =
                fingerprint (ce_final_answer entry)))"
    using has_recent_duplicate_iff [of store entry] by blast
qed

text \<open>
  Witness for C2: an answer that differs from the one before it in its thread only in
  case and in the length of a run of blanks is tagged; the same answer in another thread
  is not.
\<close>

theorem duplicate_tag_iff_witness:
  "ce_entry_id (sample_conversation ''b'' ''t'' 2 ''use  tiered PRICING'') \<notin>
     set (map ce_entry_id [sample_conversation ''a'' ''t'' 1 ''Use tiered pricing'']) \<and>
   (\<exists>stored.
      append_entry (sample_conversation ''b'' ''t'' 2 ''use  tiered PRICING'')
        [sample_conversation ''a'' ''t'' 1 ''Use tiered pricing''] =
        [sample_conversation ''a'' ''t'' 1 ''Use tiered pricing''] @ [stored] \<and>
      same_entry stored (sample_conversation ''b'' ''t'' 2 ''use  tiered PRICING'') \<and>
      ce_duplicate stored) \<and>
   ce_entry_id (sample_conversation ''c'' ''u'' 3 ''Use tiered pricing'') \<notin>
     set (map ce_entry_id [sample_conversation ''a'' ''t'' 1 ''Use tiered pricing'']) \<and>
   (\<exists>stored.
      append_entry (sample_conversation ''c'' ''u'' 3 ''Use tiered pricing'')
        [sample_conversation ''a'' ''t'' 1 ''Use tiered pricing''] =
        [sample_conversation ''a'' ''t'' 1 ''Use tiered pricing''] @ [stored] \<and>
      same_entry stored (sample_conversation ''c'' ''u'' 3 ''Use tiered pricing'') \<and>
      \<not> ce_duplicate stored)"
proof -
  let ?a = "sample_conversation ''a'' ''t'' 1 ''Use tiered pricing''"
  let ?b = "sample_conversation ''b'' ''t'' 2 ''use  tiered PRICING''"
  let ?c = "sample_conversation ''c'' ''u'' 3 ''Use tiered pricing''"
  have fb: "ce_entry_id ?b \<notin> set (map ce_entry_id [?a])"
    by (simp add: sample_conversation_def)
  have fc: "ce_entry_id ?c \<notin> set (map ce_entry_id [?a])"
    by (simp add: sample_conversation_def)
  have tb: "thread_entries (ce_thread_id ?b) [?a] = [?a]"
    by (simp add: thread_entries_def sample_conversation_def)
  have tc: "thread_entries (ce_thread_id ?c) [?a] = []"
    by (simp add: thread_entries_def sample_conversation_def)
  have fp: "fingerprint (ce_final_answer ?a) = fingerprint (ce_final_answer ?b)"
    by code_simp
  from fb duplicate_tag_iff [of ?b "[?a]"] obtain stored where
    s: "append_entry ?b [?a] = [?a] @ [stored]" "same_entry stored ?b"
      "ce_duplicate stored \<longleftrightarrow>
         (\<exists>i < length (thread_entries (ce_thread_id ?b) [?a]).
            length (thread_entries (ce_thread_id ?b) [?a]) \<le> i + 5 \<and>
            fingerprint (ce_final_answer (thread_entries (ce_thread_id ?b) [?a] ! i)) =
              fingerprint (ce_final_answer ?b))"
    by blast
  from s(3) fp have "ce_duplicate stored"
    unfolding tb by simp
  with s(1,2) have c1: "\<exists>stored. append_entry ?b [?a] = [?a] @ [stored] \<and>
      same_entry stored ?b \<and> ce_duplicate stored"
    by blast
  from fc duplicate_tag_iff [of ?c "[?a]"] obtain stored' where
    s': "append_entry ?c [?a] = [?a] @ [stored']" "same_entry stored' ?c"
      "ce_duplicate stored' \<longleftrightarrow>
         (\<exists>i < length (thread_entries (ce_thread_id ?c) [?a]).
            length (thread_entries (ce_thread_id ?c) [?a]) \<le> i + 5 \<and>
            fingerprint (ce_final_answer (thread_entries (ce_thread_id ?c) [?a] ! i)) =
              fingerprint (ce_final_answer ?c))"
    by blast
  from s'(3) have "\<not> ce_duplicate stored'"
    unfolding tc by simp
  with s'(1,2) have c2: "\<exists>stored. append_entry ?c [?a] = [?a] @ [stored] \<and>
      same_entry stored ?c \<and> \<not> ce_duplicate stored"
    by blast
  from fb c1 fc c2 show ?thesis by blast
qed


end
